theory Spec2Isabelle
  imports Main "HOL-Library.Word"
begin

section \<open>Common data\<close>

text \<open>
  Byte slices are lists of 8-bit words. A Go interface value (an address, a public key)
  held in a slice slot is an \<open>option\<close>: \<open>None\<close> is the nil interface value that
  \<open>make\<close> fills a fresh slice with.
\<close>

type_synonym byte = "8 word"
type_synonym bytes = "byte list"

text \<open>
  Errors are values. Every \<open>xerrors.Errorf\<close> site of the sources has a constructor of
  its own, wrapping the error it reports where the source wraps one. \<open>Panic\<close> is a Go
  run-time panic (index out of range, nil dereference, negative \<open>make\<close>, closing a closed
  channel). \<open>External\<close> is an error raised inside a collaborator whose code is not part
  of the modelled files. \<open>AlreadySet\<close> is the genesis store's refusal.
\<close>

datatype error =
    Panic
  | External string
  | AlreadySet
  | Unsupported string
  | PrepareFailed error
  | CommitFailed error
  | MarshalSignatureFailed error
  | FinalizeFailed error
  | ReadFromTreeFailed error
  | DecodeFailed error
  | SerializeRosterFailed error
  | TreeStageFailed error
  | MismatchTreeRoot bytes bytes
  | CreatingGenesisFailed error
  | TreeCommitFailed error
  | SetGenesisFailed error
  | MarshalPrepareSignatureFailed error
  | InvalidMessageType string
  | MismatchArrayLength nat nat
  | DecodePublicKeyFailed error

section \<open>The roster (ledger/byzcoin/roster.go)\<close>

text \<open>
  \<open>type roster struct { addrs []mino.Address; pubkeys []crypto.PublicKey }\<close>
\<close>

record ('a, 'k) roster =
  addrs :: "'a option list"
  pubkeys :: "'k option list"

text \<open>
  \<open>roster.Take\<close>. The argument is \<open>filter.Indices\<close>, the \<open>[]int\<close> that
  \<open>mino.ApplyFilters(updaters)\<close> returns. The two slices are made with
  \<open>len(filter.Indices)\<close> nil slots, then slot \<open>i\<close> receives entry \<open>k\<close> of the receiver,
  the address first. An index outside either slice of the receiver panics.
\<close>

fun Take_loop ::
  "('a, 'k) roster \<Rightarrow> nat \<Rightarrow> int list \<Rightarrow> ('a, 'k) roster \<Rightarrow> error + ('a, 'k) roster"
where
  "Take_loop r i [] newRoster = Inr newRoster"
| "Take_loop r i (k # ks) newRoster =
     (if 0 \<le> k \<and> nat k < length (addrs r) then
        (if nat k < length (pubkeys r) then
           Take_loop r (Suc i) ks
             (newRoster\<lparr>addrs := (addrs newRoster)[i := addrs r ! nat k],
                        pubkeys := (pubkeys newRoster)[i := pubkeys r ! nat k]\<rparr>)
         else Inl Panic)
      else Inl Panic)"

definition Take :: "('a, 'k) roster \<Rightarrow> int list \<Rightarrow> error + ('a, 'k) roster" where
  "Take r indices =
     Take_loop r 0 indices
       \<lparr>addrs = replicate (length indices) None,
        pubkeys = replicate (length indices) None\<rparr>"

text \<open>
  \<open>roster.Apply\<close>: the body is \<open>// TODO: implement\<close> followed by \<open>return r\<close>; the change
  set has no name in the source and is never read.
\<close>

definition Apply :: "('a, 'k) roster \<Rightarrow> 'c \<Rightarrow> ('a, 'k) roster" where
  "Apply r changeSet = r"

definition Len :: "('a, 'k) roster \<Rightarrow> int" where
  "Len r = int (length (addrs r))"



text \<open>
  A \<open>crypto.CollectiveAuthority\<close> as \<open>rosterFactory.New\<close> sees it: what \<open>Len()\<close> returns,
  and the values its two iterators hand out while \<open>HasNext()\<close> holds.
\<close>

record ('a, 'k) authority =
  authority_Len :: int
  AddressIterator :: "'a option list"
  PublicKeyIterator :: "'k option list"

text \<open>
  \<open>rosterFactory.New\<close>: both slices are made with \<open>authority.Len()\<close> nil slots, and the
  loop runs while both iterators have a next value, writing slot \<open>i\<close> of each. A slot
  past the end is an index panic; a negative length panics in \<open>make\<close>.
\<close>

fun New_loop ::
  "nat \<Rightarrow> 'a option list \<Rightarrow> 'k option list \<Rightarrow> ('a, 'k) roster \<Rightarrow> error + ('a, 'k) roster"
where
  "New_loop i (a # addrIter) (k # pubkeyIter) ro =
     (if i < length (addrs ro) then
        (if i < length (pubkeys ro) then
           New_loop (Suc i) addrIter pubkeyIter
             (ro\<lparr>addrs := (addrs ro)[i := a], pubkeys := (pubkeys ro)[i := k]\<rparr>)
         else Inl Panic)
      else Inl Panic)"
| "New_loop i addrIter pubkeyIter ro = Inr ro"

definition New :: "('a, 'k) authority \<Rightarrow> error + ('a, 'k) roster" where
  "New au =
     (if authority_Len au < 0 then Inl Panic
      else New_loop 0 (AddressIterator au) (PublicKeyIterator au)
             \<lparr>addrs = replicate (nat (authority_Len au)) None,
              pubkeys = replicate (nat (authority_Len au)) None\<rparr>)"

text \<open>
  The input of \<open>rosterFactory.FromProto\<close>: a \<open>*Roster\<close> protobuf message with its two
  repeated fields, or a message of another type (named for the \<open>%T\<close> of the error).
\<close>

datatype 'any proto_message =
    Roster_pb (Addresses: "bytes list") (PublicKeys: "'any list")
  | Other_pb string

record ('a, 'k, 'any) rosterFactory =
  addressFactory_FromText :: "bytes \<Rightarrow> 'a option"
  pubkeyFactory_FromProto :: "'any \<Rightarrow> error + 'k option"

fun FromProto_loop ::
  "('a, 'k, 'any) rosterFactory \<Rightarrow> 'any list \<Rightarrow> nat \<Rightarrow> bytes list \<Rightarrow> ('a, 'k) roster
     \<Rightarrow> error + ('a, 'k) roster"
where
  "FromProto_loop f pks i [] ro = Inr ro"
| "FromProto_loop f pks i (addrpb # rest) ro =
     (if i < length (addrs ro) then
        (if i < length pks then
           (case pubkeyFactory_FromProto f (pks ! i) of
              Inl e \<Rightarrow> Inl (DecodePublicKeyFailed e)
            | Inr pubkey \<Rightarrow>
                if i < length (pubkeys ro) then
                  FromProto_loop f pks (Suc i) rest
                    (ro\<lparr>addrs := (addrs ro)[i := addressFactory_FromText f addrpb],
                       pubkeys := (pubkeys ro)[i := pubkey]\<rparr>)
                else Inl Panic)
         else Inl Panic)
      else Inl Panic)"

definition FromProto ::
  "('a, 'k, 'any) rosterFactory \<Rightarrow> 'any proto_message \<Rightarrow> error + ('a, 'k) roster"
where
  "FromProto f msg =
     (case msg of
        Other_pb ty \<Rightarrow> Inl (InvalidMessageType ty)
      | Roster_pb as ks \<Rightarrow>
          if length as \<noteq> length ks then Inl (MismatchArrayLength (length as) (length ks))
          else FromProto_loop f ks 0 as
                 \<lparr>addrs = replicate (length as) None,
                  pubkeys = replicate (length ks) None\<rparr>)"

text \<open>
  The roster invariant: the two slices have the same length, so that slot \<open>i\<close> of each
  describes participant \<open>i\<close>.
\<close>

definition aligned :: "('a, 'k) roster \<Rightarrow> bool" where
  "aligned r = (length (addrs r) = length (pubkeys r))"

section \<open>The commit request (consensus/cosipbft/requests.go)\<close>

text \<open>
  \<open>type Commit struct { to Digest; prepare crypto.Signature; hash []byte }\<close>. The
  signature is an opaque value; \<open>MarshalBinary\<close> is its method of that name.
\<close>

record 'sg Commit =
  to :: bytes
  prepare :: 'sg
  hash :: bytes

definition newCommitRequest ::
  "('sg \<Rightarrow> error + bytes) \<Rightarrow> bytes \<Rightarrow> 'sg \<Rightarrow> error + 'sg Commit"
where
  "newCommitRequest MarshalBinary to_arg prepare_arg =
     (case MarshalBinary prepare_arg of
        Inl err \<Rightarrow> Inl (MarshalPrepareSignatureFailed err)
      | Inr buffer \<Rightarrow> Inr \<lparr>to = to_arg, prepare = prepare_arg, hash = buffer\<rparr>)"

definition Commit_GetHash :: "'sg Commit \<Rightarrow> bytes" where
  "Commit_GetHash c = hash c"

section \<open>The processor (core/ordering/cosipbft/proc.go)\<close>

text \<open>\<open>keyRoster = [32]byte{}\<close>\<close>

definition keyRoster :: bytes where
  "keyRoster = replicate 32 0"

text \<open>
  \<open>root := types.Digest{}; copy(root[:], b)\<close>: the first 32 bytes of \<open>b\<close>, the rest of
  the array staying zero.
\<close>

definition to_Digest :: "bytes \<Rightarrow> bytes" where
  "to_Digest b = take 32 b @ replicate (32 - length b) 0"

text \<open>
  The messages the two type switches look at; \<open>OtherMessage\<close> is a \<open>serde.Message\<close>
  of any other type, carrying the type name that \<open>%T\<close> prints.
\<close>

datatype ('b, 'sg, 'g) message =
    BlockMessage 'b
  | CommitMessage bytes 'sg
  | GenesisMessage 'g
  | DoneMessage bytes 'sg
  | ViewMessage bytes nat
  | OtherMessage string

text \<open>\<open>pbft.View{From, ID, Leader}\<close> and \<open>mino.Request{Address, Message}\<close>.\<close>

record 'a View =
  From :: 'a
  ID :: bytes
  Leader :: nat

record ('a, 'b, 'sg, 'g) Request =
  Address :: 'a
  Message :: "('b, 'sg, 'g) message"

text \<open>
  The \<open>started\<close> channel carries no value: it is open or closed, and closing a closed
  channel panics.
\<close>

datatype chan = Open | Closed

definition close :: "chan \<Rightarrow> error + chan" where
  "close c = (case c of Open \<Rightarrow> Inr Closed | Closed \<Rightarrow> Inl Panic)"

text \<open>
  Modelled from the spec: the state that the collaborators named by the fields of
  \<open>processor\<close> hold (sections 4.1 to 4.4); their own code is not part of the modelled
  files. \<open>tree\<close> is the tree that the state-tree cache holds (\<open>tree.Get()\<close> reads the
  field, \<open>tree.Set(t)\<close> replaces it); \<open>genesis\<close> is the singleton slot of the genesis
  store; \<open>blocks\<close> is the append-only log of links, \<open>blocks.Len()\<close> its length;
  \<open>sync\<close> is what \<open>sync.GetLatest()\<close> returns; \<open>watcher\<close> is the list of the indices
  of the events notified so far; \<open>pbftsm\<close> is whatever the PBFT state machine keeps for
  itself.
\<close>

record ('t, 'g, 'l, 'p) processor =
  pbftsm :: 'p
  sync :: nat
  tree :: 't
  watcher :: "nat list"
  genesis :: "'g option"
  blocks :: "'l list"
  started :: chan

text \<open>
  The methods of the collaborators that \<open>proc.go\<close> calls, as an interface table. The
  state machine shares the stores with the processor, so its methods transform the whole
  state. A method that returns only an error returns \<open>Some err\<close> or \<open>None\<close>.
  \<open>tree_Stage\<close> takes the callback that writes to the snapshot; \<open>tree_Commit\<close> returns
  the tree as persisted. \<open>link_GetIndex\<close> is \<open>link.GetBlock().GetIndex()\<close>.
\<close>

record ('a, 'b, 'sg, 'r, 'g, 't, 'sn, 'l, 'p) collaborators =
  pbftsm_Prepare ::
    "'b \<Rightarrow> ('t, 'g, 'l, 'p) processor \<Rightarrow> (error + bytes) \<times> ('t, 'g, 'l, 'p) processor"
  pbftsm_Commit ::
    "bytes \<Rightarrow> 'sg \<Rightarrow> ('t, 'g, 'l, 'p) processor \<Rightarrow> error option \<times> ('t, 'g, 'l, 'p) processor"
  pbftsm_Finalize ::
    "bytes \<Rightarrow> 'sg \<Rightarrow> ('t, 'g, 'l, 'p) processor \<Rightarrow> error option \<times> ('t, 'g, 'l, 'p) processor"
  pbftsm_Accept :: "'a View \<Rightarrow> ('t, 'g, 'l, 'p) processor \<Rightarrow> ('t, 'g, 'l, 'p) processor"
  signature_MarshalBinary :: "'sg \<Rightarrow> error + bytes"
  roster_Serialize :: "'r \<Rightarrow> error + bytes"
  rosterFac_AuthorityOf :: "bytes \<Rightarrow> error + 'r"
  tree_Get :: "'t \<Rightarrow> bytes \<Rightarrow> error + bytes"
  tree_Stage :: "'t \<Rightarrow> ('sn \<Rightarrow> error + 'sn) \<Rightarrow> error + 't"
  snap_Set :: "bytes \<Rightarrow> bytes \<Rightarrow> 'sn \<Rightarrow> error + 'sn"
  tree_GetRoot :: "'t \<Rightarrow> bytes"
  tree_Commit :: "'t \<Rightarrow> error + 't"
  NewGenesis :: "'r \<Rightarrow> bytes \<Rightarrow> error + 'g"
  genesis_GetRoot :: "'g \<Rightarrow> bytes"
  genesis_GetRoster :: "'g \<Rightarrow> 'r"
  link_GetIndex :: "'l \<Rightarrow> nat"

text \<open>
  Modelled from the spec: the genesis store (section 4.2) is a singleton slot;
  \<open>Exists()\<close> tells whether it is filled, and \<open>Set(genesis)\<close> fails with \<open>ALREADY_SET\<close>
  if a genesis is already present.
\<close>

definition genesis_Exists :: "'g option \<Rightarrow> bool" where
  "genesis_Exists slot = (slot \<noteq> None)"

definition genesis_Set :: "'g \<Rightarrow> 'g option \<Rightarrow> error + 'g option" where
  "genesis_Set g slot = (case slot of None \<Rightarrow> Inr (Some g) | Some old \<Rightarrow> Inl AlreadySet)"

text \<open>
  Modelled from the spec: \<open>blocks.Watch(ctx)\<close> (section 4.1) delivers the links appended
  after the subscription, in append order, until the context is cancelled. The links
  are appended by other activities while the handler waits, so they are an input of the
  handler: each arrival is the link appended, with what \<open>sync.GetLatest()\<close> returns at
  the moment the handler looks at it.
\<close>

record 'l arrival =
  arrived :: 'l
  latest_then :: nat

text \<open>
  The loop \<open>for link := range blocks\<close> of \<open>Invoke\<close>. The context is created with
  \<open>context.WithCancel(context.Background())\<close>: it has no deadline, and only the
  \<open>cancel()\<close> in the loop body (or the deferred one, at return) ends the subscription. So
  the loop ends at the first link whose index is at least \<open>GetLatest()\<close>; when no
  such link ever arrives the handler does not return, which is \<open>None\<close>.
\<close>

fun Invoke_wait ::
  "('a, 'b, 'sg, 'r, 'g, 't, 'sn, 'l, 'p) collaborators \<Rightarrow> 'l arrival list
     \<Rightarrow> ('t, 'g, 'l, 'p) processor \<Rightarrow> ('t, 'g, 'l, 'p) processor option"
where
  "Invoke_wait env [] h = None"
| "Invoke_wait env (a # rest) h =
     (let h1 = h\<lparr>blocks := blocks h @ [arrived a], sync := latest_then a\<rparr> in
      if sync h1 \<le> link_GetIndex env (arrived a) then Some h1
      else Invoke_wait env rest h1)"

text \<open>The call of \<open>pbftsm.Prepare\<close> that follows the wait, with its error wrapping.\<close>

definition Invoke_Prepare ::
  "('a, 'b, 'sg, 'r, 'g, 't, 'sn, 'l, 'p) collaborators \<Rightarrow> 'b \<Rightarrow> ('t, 'g, 'l, 'p) processor
     \<Rightarrow> (error + bytes) \<times> ('t, 'g, 'l, 'p) processor"
where
  "Invoke_Prepare env block h =
     (case pbftsm_Prepare env block h of
        (Inl err, h1) \<Rightarrow> (Inl (PrepareFailed err), h1)
      | (Inr digest, h1) \<Rightarrow> (Inr digest, h1))"

text \<open>
  \<open>processor.Invoke\<close>. The result is \<open>None\<close> when the handler never returns, otherwise
  the reply or the error, with the state it leaves.
\<close>

definition Invoke ::
  "('a, 'b, 'sg, 'r, 'g, 't, 'sn, 'l, 'p) collaborators \<Rightarrow> 'a \<Rightarrow> ('b, 'sg, 'g) message
     \<Rightarrow> 'l arrival list \<Rightarrow> ('t, 'g, 'l, 'p) processor
     \<Rightarrow> ((error + bytes) \<times> ('t, 'g, 'l, 'p) processor) option"
where
  "Invoke env sender msg arrivals h =
     (case msg of
        BlockMessage block \<Rightarrow>
          (case (if length (blocks h) < sync h then Invoke_wait env arrivals h else Some h) of
             None \<Rightarrow> None
           | Some h1 \<Rightarrow> Some (Invoke_Prepare env block h1))
      | CommitMessage id_arg sg \<Rightarrow>
          (case pbftsm_Commit env id_arg sg h of
             (Some err, h1) \<Rightarrow> Some (Inl (CommitFailed err), h1)
           | (None, h1) \<Rightarrow>
               (case signature_MarshalBinary env sg of
                  Inl err \<Rightarrow> Some (Inl (MarshalSignatureFailed err), h1)
                | Inr buffer \<Rightarrow> Some (Inr buffer, h1)))
      | GenesisMessage g \<Rightarrow> Some (Inl (Unsupported ''types.GenesisMessage''), h)
      | DoneMessage id_arg sg \<Rightarrow> Some (Inl (Unsupported ''types.DoneMessage''), h)
      | ViewMessage id_arg leader \<Rightarrow> Some (Inl (Unsupported ''types.ViewMessage''), h)
      | OtherMessage ty \<Rightarrow> Some (Inl (Unsupported ty), h))"

text \<open>\<open>processor.readRoster\<close> and \<open>processor.getCurrentRoster\<close>.\<close>

definition readRoster ::
  "('a, 'b, 'sg, 'r, 'g, 't, 'sn, 'l, 'p) collaborators \<Rightarrow> 't \<Rightarrow> error + 'r"
where
  "readRoster env t =
     (case tree_Get env t keyRoster of
        Inl err \<Rightarrow> Inl (ReadFromTreeFailed err)
      | Inr data \<Rightarrow>
          (case rosterFac_AuthorityOf env data of
             Inl err \<Rightarrow> Inl (DecodeFailed err)
           | Inr ro \<Rightarrow> Inr ro))"

definition getCurrentRoster ::
  "('a, 'b, 'sg, 'r, 'g, 't, 'sn, 'l, 'p) collaborators \<Rightarrow> ('t, 'g, 'l, 'p) processor
     \<Rightarrow> error + 'r"
where
  "getCurrentRoster env h = readRoster env (tree h)"

text \<open>
  \<open>processor.storeGenesis\<close>; \<open>match\<close> is the pointer argument, \<open>None\<close> for nil. The
  steps are in the order of the source: serialize, stage, compare the roots, create the
  genesis, commit the staged tree, set the tree cache, set the genesis, notify the
  event of index 0, close \<open>started\<close>.
\<close>

definition storeGenesis ::
  "('a, 'b, 'sg, 'r, 'g, 't, 'sn, 'l, 'p) collaborators \<Rightarrow> 'r \<Rightarrow> bytes option
     \<Rightarrow> ('t, 'g, 'l, 'p) processor \<Rightarrow> (error + unit) \<times> ('t, 'g, 'l, 'p) processor"
where
  "storeGenesis env ro match h =
     (case roster_Serialize env ro of
        Inl err \<Rightarrow> (Inl (SerializeRosterFailed err), h)
      | Inr val \<Rightarrow>
     (case tree_Stage env (tree h) (\<lambda>snap. snap_Set env keyRoster val snap) of
        Inl err \<Rightarrow> (Inl (TreeStageFailed err), h)
      | Inr stageTree \<Rightarrow>
     (let root = to_Digest (tree_GetRoot env stageTree) in
      if match \<noteq> None \<and> the match \<noteq> root then (Inl (MismatchTreeRoot (the match) root), h)
      else
     (case NewGenesis env ro root of
        Inl err \<Rightarrow> (Inl (CreatingGenesisFailed err), h)
      | Inr gen \<Rightarrow>
     (case tree_Commit env stageTree of
        Inl err \<Rightarrow> (Inl (TreeCommitFailed err), h)
      | Inr committed \<Rightarrow>
     (let h1 = h\<lparr>tree := committed\<rparr> in
      case genesis_Set gen (genesis h1) of
        Inl err \<Rightarrow> (Inl (SetGenesisFailed err), h1)
      | Inr slot \<Rightarrow>
     (let h2 = h1\<lparr>genesis := slot\<rparr>;
          h3 = h2\<lparr>watcher := watcher h2 @ [0]\<rparr> in
      case close (started h3) of
        Inl err \<Rightarrow> (Inl err, h3)
      | Inr c \<Rightarrow> (Inr (), h3\<lparr>started := c\<rparr>))))))))"

text \<open>\<open>processor.Process\<close>.\<close>

definition Process ::
  "('a, 'b, 'sg, 'r, 'g, 't, 'sn, 'l, 'p) collaborators \<Rightarrow> ('a, 'b, 'sg, 'g) Request
     \<Rightarrow> ('t, 'g, 'l, 'p) processor \<Rightarrow> (error + unit) \<times> ('t, 'g, 'l, 'p) processor"
where
  "Process env req h =
     (case Message req of
        GenesisMessage g \<Rightarrow>
          if genesis_Exists (genesis h) then (Inr (), h)
          else storeGenesis env (genesis_GetRoster env g) (Some (genesis_GetRoot env g)) h
      | DoneMessage id_arg sg \<Rightarrow>
          (case pbftsm_Finalize env id_arg sg h of
             (Some err, h1) \<Rightarrow> (Inl (FinalizeFailed err), h1)
           | (None, h1) \<Rightarrow> (Inr (), h1))
      | ViewMessage id_arg leader \<Rightarrow>
          (Inr (), pbftsm_Accept env \<lparr>From = Address req, ID = id_arg, Leader = leader\<rparr> h)
      | BlockMessage block \<Rightarrow> (Inl (Unsupported ''types.BlockMessage''), h)
      | CommitMessage id_arg sg \<Rightarrow> (Inl (Unsupported ''types.CommitMessage''), h)
      | OtherMessage ty \<Rightarrow> (Inl (Unsupported ty), h))"

text \<open>The same request delivered \<open>n\<close> times in a row: the results, and the last state.\<close>

fun deliver ::
  "('a, 'b, 'sg, 'r, 'g, 't, 'sn, 'l, 'p) collaborators \<Rightarrow> ('a, 'b, 'sg, 'g) Request \<Rightarrow> nat
     \<Rightarrow> ('t, 'g, 'l, 'p) processor \<Rightarrow> (error + unit) list \<times> ('t, 'g, 'l, 'p) processor"
where
  "deliver env req 0 h = ([], h)"
| "deliver env req (Suc n) h =
     (case Process env req h of
        (res, h1) \<Rightarrow> (case deliver env req n h1 of (rs, h2) \<Rightarrow> (res # rs, h2)))"

section \<open>A small instance\<close>

text \<open>
  An instance of the interface table on which the theorems are exercised: the tree is an
  association list whose root is the concatenation of its values, a roster and a
  signature are their own encodings, a genesis is the pair of its roster and its root, a
  block and a link are their indices, and the state machine accepts every call and
  keeps the list of the calls it received.
\<close>

definition mem ::
  "(string, nat, bytes, bytes, bytes \<times> bytes, (bytes \<times> bytes) list, (bytes \<times> bytes) list,
    nat, string list) collaborators"
where
  "mem =
     \<lparr>pbftsm_Prepare = (\<lambda>block h. (Inr [of_nat block], h\<lparr>pbftsm := pbftsm h @ [''Prepare'']\<rparr>)),
      pbftsm_Commit = (\<lambda>id_arg sg h. (None, h\<lparr>pbftsm := pbftsm h @ [''Commit'']\<rparr>)),
      pbftsm_Finalize = (\<lambda>id_arg sg h. (None, h\<lparr>pbftsm := pbftsm h @ [''Finalize'']\<rparr>)),
      pbftsm_Accept = (\<lambda>view h. h\<lparr>pbftsm := pbftsm h @ [''Accept'']\<rparr>),
      signature_MarshalBinary = Inr,
      roster_Serialize = Inr,
      rosterFac_AuthorityOf = Inr,
      tree_Get = (\<lambda>t key. case map_of t key of
                            None \<Rightarrow> Inl (External ''key not found'')
                          | Some v \<Rightarrow> Inr v),
      tree_Stage = (\<lambda>t fn. fn t),
      snap_Set = (\<lambda>key v snap. Inr ((key, v) # snap)),
      tree_GetRoot = (\<lambda>t. concat (map snd t)),
      tree_Commit = Inr,
      NewGenesis = (\<lambda>ro root. Inr (ro, root)),
      genesis_GetRoot = snd,
      genesis_GetRoster = fst,
      link_GetIndex = (\<lambda>l. l)\<rparr>"

text \<open>
  A processor that has received nothing yet, the same processor once the genesis of the
  roster \<open>[1]\<close> is stored, and a processor that holds three links while five are known.
\<close>

definition fresh :: "((bytes \<times> bytes) list, bytes \<times> bytes, nat, string list) processor" where
  "fresh =
     \<lparr>pbftsm = [], sync = 0, tree = [], watcher = [], genesis = None, blocks = [],
      started = Open\<rparr>"

definition bootstrapped ::
  "((bytes \<times> bytes) list, bytes \<times> bytes, nat, string list) processor"
where
  "bootstrapped =
     \<lparr>pbftsm = [], sync = 0, tree = [(keyRoster, [1])], watcher = [0],
      genesis = Some ([1], to_Digest [1]), blocks = [], started = Closed\<rparr>"

definition lagging :: "((bytes \<times> bytes) list, bytes \<times> bytes, nat, string list) processor" where
  "lagging = bootstrapped\<lparr>blocks := [0, 1, 2], sync := 5\<rparr>"

section \<open>Properties of the roster\<close>

subsection \<open>The loops\<close>




lemma Take_loop_result:
  "Take_loop r i ks nr = Inr out \<Longrightarrow> length (addrs nr) = n \<Longrightarrow> length (pubkeys nr) = n \<Longrightarrow>
   i + length ks \<le> n \<Longrightarrow>
   length (addrs out) = n \<and> length (pubkeys out) = n
   \<and> (\<forall>j<length ks. addrs out ! (i + j) = addrs r ! nat (ks ! j)
                     \<and> pubkeys out ! (i + j) = pubkeys r ! nat (ks ! j))
   \<and> (\<forall>j<i. addrs out ! j = addrs nr ! j \<and> pubkeys out ! j = pubkeys nr ! j)"
proof (induction ks arbitrary: i nr)
  case Nil
  then show ?case by simp
next
  case (Cons k ks)
  let ?nr = "nr\<lparr>addrs := (addrs nr)[i := addrs r ! nat k],
                 pubkeys := (pubkeys nr)[i := pubkeys r ! nat k]\<rparr>"
  from Cons.prems(1) have run: "Take_loop r (Suc i) ks ?nr = Inr out"
    by (simp split: if_splits)
  have len: "length (addrs ?nr) = n" "length (pubkeys ?nr) = n" "Suc i + length ks \<le> n"
    using Cons.prems by simp_all
  note ih = Cons.IH[OF run len]
  have i_lt: "i < n" using Cons.prems(4) by simp
  have at_i: "addrs out ! i = addrs r ! nat k \<and> pubkeys out ! i = pubkeys r ! nat k"
    using ih i_lt Cons.prems(2,3) by simp
  have later: "\<forall>j<length (k # ks). addrs out ! (i + j) = addrs r ! nat ((k # ks) ! j)
                     \<and> pubkeys out ! (i + j) = pubkeys r ! nat ((k # ks) ! j)"
  proof (intro allI impI)
    fix j assume j: "j < length (k # ks)"
    show "addrs out ! (i + j) = addrs r ! nat ((k # ks) ! j)
          \<and> pubkeys out ! (i + j) = pubkeys r ! nat ((k # ks) ! j)"
    proof (cases j)
      case 0
      then show ?thesis using at_i by simp
    next
      case (Suc j')
      then have "j' < length ks" using j by simp
      then show ?thesis using ih Suc by simp
    qed
  qed
  have earlier: "\<forall>j<i. addrs out ! j = addrs nr ! j \<and> pubkeys out ! j = pubkeys nr ! j"
    using ih by simp
  show ?case using ih later earlier by blast
qed

lemma Take_loop_total:
  "\<forall>k\<in>set ks. 0 \<le> k \<and> nat k < length (addrs r) \<and> nat k < length (pubkeys r) \<Longrightarrow>
   \<exists>out. Take_loop r i ks nr = Inr out"
  by (induction ks arbitrary: i nr) simp_all

lemma New_loop_result:
  "New_loop i as ks ro = Inr out \<Longrightarrow> length (addrs ro) = n \<Longrightarrow> length (pubkeys ro) = n \<Longrightarrow>
   length (addrs out) = n \<and> length (pubkeys out) = n
   \<and> (\<forall>j<min (length as) (length ks). addrs out ! (i + j) = as ! j \<and> pubkeys out ! (i + j) = ks ! j)
   \<and> (\<forall>j<i. addrs out ! j = addrs ro ! j \<and> pubkeys out ! j = pubkeys ro ! j)"
proof (induction i as ks ro rule: New_loop.induct)
  case (1 i a as k ks ro)
  let ?ro = "ro\<lparr>addrs := (addrs ro)[i := a], pubkeys := (pubkeys ro)[i := k]\<rparr>"
  from "1.prems"(1) have i_lt: "i < n" and run: "New_loop (Suc i) as ks ?ro = Inr out"
    using "1.prems"(2,3) by (simp_all split: if_splits)
  have len: "length (addrs ?ro) = n" "length (pubkeys ?ro) = n" using "1.prems" by simp_all
  have ih: "length (addrs out) = n \<and> length (pubkeys out) = n
   \<and> (\<forall>j<min (length as) (length ks). addrs out ! (Suc i + j) = as ! j \<and> pubkeys out ! (Suc i + j) = ks ! j)
   \<and> (\<forall>j<Suc i. addrs out ! j = addrs ?ro ! j \<and> pubkeys out ! j = pubkeys ?ro ! j)"
    using "1.IH" i_lt "1.prems"(2,3) run len by simp
  have at_i: "addrs out ! i = a \<and> pubkeys out ! i = k"
    using ih i_lt "1.prems"(2,3) by simp
  have later: "\<forall>j<min (length (a # as)) (length (k # ks)).
      addrs out ! (i + j) = (a # as) ! j \<and> pubkeys out ! (i + j) = (k # ks) ! j"
  proof (intro allI impI)
    fix j assume j: "j < min (length (a # as)) (length (k # ks))"
    show "addrs out ! (i + j) = (a # as) ! j \<and> pubkeys out ! (i + j) = (k # ks) ! j"
    proof (cases j)
      case 0
      then show ?thesis using at_i by simp
    next
      case (Suc j')
      then have "j' < min (length as) (length ks)" using j by simp
      then show ?thesis using ih Suc by simp
    qed
  qed
  have earlier: "\<forall>j<i. addrs out ! j = addrs ro ! j \<and> pubkeys out ! j = pubkeys ro ! j"
    using ih by simp
  show ?case using ih later earlier by blast
qed simp_all

lemma New_loop_total:
  "i + min (length as) (length ks) \<le> length (addrs ro) \<Longrightarrow>
   i + min (length as) (length ks) \<le> length (pubkeys ro) \<Longrightarrow>
   \<exists>out. New_loop i as ks ro = Inr out"
  by (induction i as ks ro rule: New_loop.induct) simp_all

lemma FromProto_loop_result:
  "FromProto_loop f pks i as ro = Inr out \<Longrightarrow>
   length (addrs ro) = n \<Longrightarrow> length (pubkeys ro) = n \<Longrightarrow>
   length (addrs out) = n \<and> length (pubkeys out) = n
   \<and> (\<forall>j<length as. addrs out ! (i + j) = addressFactory_FromText f (as ! j)
        \<and> pubkeyFactory_FromProto f (pks ! (i + j)) = Inr (pubkeys out ! (i + j)))
   \<and> (\<forall>j<i. addrs out ! j = addrs ro ! j \<and> pubkeys out ! j = pubkeys ro ! j)"
proof (induction as arbitrary: i ro)
  case Nil
  then show ?case by simp
next
  case (Cons a as)
  from Cons.prems(1) obtain pk where
    i_lt: "i < n" and dec: "pubkeyFactory_FromProto f (pks ! i) = Inr pk" and
    run: "FromProto_loop f pks (Suc i) as
            (ro\<lparr>addrs := (addrs ro)[i := addressFactory_FromText f a],
                pubkeys := (pubkeys ro)[i := pk]\<rparr>) = Inr out"
    using Cons.prems(2,3) by (auto split: if_splits sum.splits)
  let ?ro = "ro\<lparr>addrs := (addrs ro)[i := addressFactory_FromText f a],
                pubkeys := (pubkeys ro)[i := pk]\<rparr>"
  have len: "length (addrs ?ro) = n" "length (pubkeys ?ro) = n" using Cons.prems by simp_all
  note ih = Cons.IH[OF run len]
  have at_i: "addrs out ! i = addressFactory_FromText f a \<and> pubkeys out ! i = pk"
    using ih i_lt Cons.prems(2,3) by simp
  have later: "\<forall>j<length (a # as). addrs out ! (i + j) = addressFactory_FromText f ((a # as) ! j)
        \<and> pubkeyFactory_FromProto f (pks ! (i + j)) = Inr (pubkeys out ! (i + j))"
  proof (intro allI impI)
    fix j assume j: "j < length (a # as)"
    show "addrs out ! (i + j) = addressFactory_FromText f ((a # as) ! j)
        \<and> pubkeyFactory_FromProto f (pks ! (i + j)) = Inr (pubkeys out ! (i + j))"
    proof (cases j)
      case 0
      then show ?thesis using at_i dec by simp
    next
      case (Suc j')
      then have "j' < length as" using j by simp
      then show ?thesis using ih Suc by simp
    qed
  qed
  have earlier: "\<forall>j<i. addrs out ! j = addrs ro ! j \<and> pubkeys out ! j = pubkeys ro ! j"
    using ih by simp
  show ?case using ih later earlier by blast
qed

subsection \<open>The operations\<close>

lemma Take_aligned:
  assumes "Take r indices = Inr new"
  shows "aligned new \<and> length (addrs new) = length indices
         \<and> (\<forall>i<length indices. addrs new ! i = addrs r ! nat (indices ! i)
                \<and> pubkeys new ! i = pubkeys r ! nat (indices ! i))"
  using Take_loop_result[of r 0 indices _ new "length indices"] assms
  by (simp add: Take_def aligned_def)

lemma Take_total:
  assumes "aligned r" and "\<forall>k\<in>set indices. 0 \<le> k \<and> k < Len r"
  shows "\<exists>new. Take r indices = Inr new"
proof -
  have "\<forall>k\<in>set indices. 0 \<le> k \<and> nat k < length (addrs r) \<and> nat k < length (pubkeys r)"
    using assms by (auto simp: aligned_def Len_def)
  then show ?thesis unfolding Take_def by (rule Take_loop_total)
qed

lemma New_aligned:
  assumes "New au = Inr new"
  shows "aligned new \<and> int (length (addrs new)) = authority_Len au
         \<and> (\<forall>i<min (length (AddressIterator au)) (length (PublicKeyIterator au)).
                addrs new ! i = AddressIterator au ! i \<and> pubkeys new ! i = PublicKeyIterator au ! i)"
proof -
  from assms have nonneg: "0 \<le> authority_Len au"
    and run: "New_loop 0 (AddressIterator au) (PublicKeyIterator au)
             \<lparr>addrs = replicate (nat (authority_Len au)) None,
              pubkeys = replicate (nat (authority_Len au)) None\<rparr> = Inr new"
    by (simp_all add: New_def split: if_splits)
  from New_loop_result[OF run, of "nat (authority_Len au)"] nonneg
  show ?thesis by (simp add: aligned_def)
qed

lemma New_of_regular_authority:
  assumes "0 \<le> authority_Len au"
      and "length (AddressIterator au) = nat (authority_Len au)"
      and "length (PublicKeyIterator au) = nat (authority_Len au)"
  shows "New au = Inr \<lparr>addrs = AddressIterator au, pubkeys = PublicKeyIterator au\<rparr>"
proof -
  let ?n = "nat (authority_Len au)"
  let ?ro = "\<lparr>addrs = replicate ?n None, pubkeys = replicate ?n None\<rparr> :: ('a, 'b) roster"
  have "\<exists>out. New_loop 0 (AddressIterator au) (PublicKeyIterator au) ?ro = Inr out"
    by (rule New_loop_total) (simp_all add: assms)
  then obtain out where run: "New_loop 0 (AddressIterator au) (PublicKeyIterator au) ?ro = Inr out"
    by blast
  from New_loop_result[OF run, of ?n]
  have facts: "length (addrs out) = ?n" "length (pubkeys out) = ?n"
    "\<forall>j<?n. addrs out ! j = AddressIterator au ! j \<and> pubkeys out ! j = PublicKeyIterator au ! j"
    using assms by simp_all
  have a: "addrs out = AddressIterator au"
    by (rule nth_equalityI) (simp_all add: facts assms)
  have k: "pubkeys out = PublicKeyIterator au"
    by (rule nth_equalityI) (simp_all add: facts assms)
  have "out = \<lparr>addrs = AddressIterator au, pubkeys = PublicKeyIterator au\<rparr>"
    using a k by simp
  then show ?thesis using run assms(1) by (simp add: New_def)
qed

lemma FromProto_aligned:
  assumes "FromProto f msg = Inr new"
  shows "aligned new \<and> length (addrs new) = length (Addresses msg)
         \<and> (\<forall>i<length (Addresses msg).
               addrs new ! i = addressFactory_FromText f (Addresses msg ! i)
               \<and> pubkeyFactory_FromProto f (PublicKeys msg ! i) = Inr (pubkeys new ! i))"
proof (cases msg)
  case (Roster_pb as ks)
  with assms have eq: "length as = length ks"
    and run: "FromProto_loop f ks 0 as
                 \<lparr>addrs = replicate (length as) None,
                  pubkeys = replicate (length ks) None\<rparr> = Inr new"
    by (simp_all add: FromProto_def split: if_splits)
  from FromProto_loop_result[OF run, of "length as"] eq Roster_pb
  show ?thesis by (simp add: aligned_def)
next
  case (Other_pb ty)
  with assms show ?thesis by (simp add: FromProto_def)
qed

text \<open>
  Claim C7. For every roster \<open>r\<close> and every change set \<open>c\<close>, \<open>r.Apply(c)\<close> is said to
  produce the successor roster obtained by applying \<open>c\<close> to \<open>r\<close>. The method is a stub:
  whatever the change set, it returns its receiver, so two different change sets give
  the same roster.
\<close>

theorem Apply_ignores_change_set:
  "Apply r changeSet = r \<and> Apply r changeSet = Apply r otherChangeSet"
  by (simp add: Apply_def)



text \<open>
  Claim C10. Every operation that produces a roster keeps the two slices aligned, slot
  \<open>i\<close> of each coming from the same participant of the input: \<open>Take\<close> copies entry
  \<open>indices[i]\<close> of both slices of the receiver and returns whenever the receiver is
  aligned and the indices are within it; \<open>Apply\<close> returns the receiver; \<open>New\<close> fills
  both slices, of length \<open>authority.Len()\<close>, from the two iterators in step, and copies
  an authority whose iterators have that length; \<open>FromProto\<close> returns an error when the
  two arrays of the message differ in length, and otherwise decodes entry \<open>i\<close> of each
  into slot \<open>i\<close>.
\<close>

theorem roster_operations_keep_alignment:
  "(\<forall>new. Take r indices = Inr new \<longrightarrow>
       aligned new \<and> length (addrs new) = length indices
       \<and> (\<forall>i<length indices. addrs new ! i = addrs r ! nat (indices ! i)
              \<and> pubkeys new ! i = pubkeys r ! nat (indices ! i)))
   \<and> (aligned r \<and> (\<forall>k\<in>set indices. 0 \<le> k \<and> k < Len r) \<longrightarrow> (\<exists>new. Take r indices = Inr new))
   \<and> (aligned r \<longrightarrow> aligned (Apply r changeSet))
   \<and> (\<forall>new. New au = Inr new \<longrightarrow>
       aligned new \<and> int (length (addrs new)) = authority_Len au
       \<and> (\<forall>i<min (length (AddressIterator au)) (length (PublicKeyIterator au)).
              addrs new ! i = AddressIterator au ! i \<and> pubkeys new ! i = PublicKeyIterator au ! i))
   \<and> (0 \<le> authority_Len au \<and> length (AddressIterator au) = nat (authority_Len au)
        \<and> length (PublicKeyIterator au) = nat (authority_Len au) \<longrightarrow>
      New au = Inr \<lparr>addrs = AddressIterator au, pubkeys = PublicKeyIterator au\<rparr>)
   \<and> (length as \<noteq> length ks \<longrightarrow>
      FromProto f (Roster_pb as ks) = Inl (MismatchArrayLength (length as) (length ks)))
   \<and> (\<forall>new. FromProto f msg = Inr new \<longrightarrow>
       aligned new \<and> length (addrs new) = length (Addresses msg)
       \<and> (\<forall>i<length (Addresses msg).
              addrs new ! i = addressFactory_FromText f (Addresses msg ! i)
              \<and> pubkeyFactory_FromProto f (PublicKeys msg ! i) = Inr (pubkeys new ! i)))"
proof -
  have take_keeps: "\<forall>new. Take r indices = Inr new \<longrightarrow>
       aligned new \<and> length (addrs new) = length indices
       \<and> (\<forall>i<length indices. addrs new ! i = addrs r ! nat (indices ! i)
              \<and> pubkeys new ! i = pubkeys r ! nat (indices ! i))"
    using Take_aligned by blast
  have take_returns:
    "aligned r \<and> (\<forall>k\<in>set indices. 0 \<le> k \<and> k < Len r) \<longrightarrow> (\<exists>new. Take r indices = Inr new)"
    using Take_total by blast
  have apply_keeps: "aligned r \<longrightarrow> aligned (Apply r changeSet)"
    by (simp add: Apply_def)
  have new_keeps: "\<forall>new. New au = Inr new \<longrightarrow>
       aligned new \<and> int (length (addrs new)) = authority_Len au
       \<and> (\<forall>i<min (length (AddressIterator au)) (length (PublicKeyIterator au)).
              addrs new ! i = AddressIterator au ! i \<and> pubkeys new ! i = PublicKeyIterator au ! i)"
    using New_aligned by blast
  have new_copies: "0 \<le> authority_Len au \<and> length (AddressIterator au) = nat (authority_Len au)
        \<and> length (PublicKeyIterator au) = nat (authority_Len au) \<longrightarrow>
      New au = Inr \<lparr>addrs = AddressIterator au, pubkeys = PublicKeyIterator au\<rparr>"
    using New_of_regular_authority by blast
  have mismatch: "length as \<noteq> length ks \<longrightarrow>
      FromProto f (Roster_pb as ks) = Inl (MismatchArrayLength (length as) (length ks))"
    by (simp add: FromProto_def)
  have decoded: "\<forall>new. FromProto f msg = Inr new \<longrightarrow>
       aligned new \<and> length (addrs new) = length (Addresses msg)
       \<and> (\<forall>i<length (Addresses msg).
              addrs new ! i = addressFactory_FromText f (Addresses msg ! i)
              \<and> pubkeyFactory_FromProto f (PublicKeys msg ! i) = Inr (pubkeys new ! i))"
    using FromProto_aligned by blast
  show ?thesis
    by (intro conjI take_keeps take_returns apply_keeps new_keeps new_copies mismatch decoded)
qed

theorem roster_operations_keep_alignment_witness:
  "Take \<lparr>addrs = [Some ''n1'', Some ''n2''], pubkeys = [Some (10::nat), Some 20]\<rparr> [1]
     = Inr \<lparr>addrs = [Some ''n2''], pubkeys = [Some 20]\<rparr>
   \<and> aligned \<lparr>addrs = [Some ''n2''], pubkeys = [Some (20::nat)]\<rparr>
   \<and> (\<exists>new. Take \<lparr>addrs = [Some ''n1'', Some ''n2''], pubkeys = [Some (10::nat), Some 20]\<rparr>
               [1, 0, 1] = Inr new)
   \<and> aligned (Apply \<lparr>addrs = [Some ''n1'', Some ''n2''], pubkeys = [Some (10::nat), Some 20]\<rparr> ())
   \<and> New \<lparr>authority_Len = 2, AddressIterator = [Some ''n1'', Some ''n2''],
           PublicKeyIterator = [Some (10::nat), Some 20]\<rparr>
     = Inr \<lparr>addrs = [Some ''n1'', Some ''n2''], pubkeys = [Some 10, Some 20]\<rparr>
   \<and> aligned \<lparr>addrs = [Some ''n1'', Some ''n2''], pubkeys = [Some (10::nat), Some 20]\<rparr>
   \<and> FromProto \<lparr>addressFactory_FromText = Some, pubkeyFactory_FromProto = (\<lambda>k. Inr (Some k))\<rparr>
        (Roster_pb [[1], [2]] [10::nat])
     = (Inl (MismatchArrayLength 2 1) :: error + (bytes, nat) roster)
   \<and> FromProto \<lparr>addressFactory_FromText = Some, pubkeyFactory_FromProto = (\<lambda>k. Inr (Some k))\<rparr>
        (Roster_pb [[1], [2]] [10::nat, 20])
     = Inr \<lparr>addrs = [Some [1], Some [2]], pubkeys = [Some 10, Some 20]\<rparr>
   \<and> aligned \<lparr>addrs = [Some [1 :: byte], Some [2]], pubkeys = [Some (10::nat), Some 20]\<rparr>"
proof -
  let ?r = "\<lparr>addrs = [Some ''n1'', Some ''n2''], pubkeys = [Some (10::nat), Some 20]\<rparr>"
  let ?au = "\<lparr>authority_Len = 2, AddressIterator = [Some ''n1'', Some ''n2''],
           PublicKeyIterator = [Some (10::nat), Some 20]\<rparr>"
  let ?f = "\<lparr>addressFactory_FromText = Some, pubkeyFactory_FromProto = (\<lambda>k. Inr (Some k))\<rparr>
              :: (bytes, nat, nat) rosterFactory"
  note facts = roster_operations_keep_alignment
                 [of ?r "[1]" "()" ?au "[[1], [2]]" "[10::nat]" ?f "Roster_pb [[1], [2]] [10, 20]"]
  note more = roster_operations_keep_alignment
                 [of ?r "[1, 0, 1]" "()" ?au "[[1], [2]]" "[10::nat]" ?f "Roster_pb [[1], [2]] [10, 20]"]
  have taken: "Take ?r [1] = Inr \<lparr>addrs = [Some ''n2''], pubkeys = [Some 20]\<rparr>"
    by (simp add: Take_def)
  have kept: "aligned \<lparr>addrs = [Some ''n2''], pubkeys = [Some (20::nat)]\<rparr>"
    using facts[THEN conjunct1, rule_format, OF taken] by simp
  have within: "aligned ?r \<and> (\<forall>k\<in>set [1, 0, 1]. 0 \<le> k \<and> k < Len ?r)"
    by (simp add: aligned_def Len_def)
  have returns: "\<exists>new. Take ?r [1, 0, 1] = Inr new"
    using more[THEN conjunct2, THEN conjunct1, rule_format, OF within] .
  have applied: "aligned (Apply ?r ())"
    using facts[THEN conjunct2, THEN conjunct2, THEN conjunct1, rule_format] within by blast
  have regular: "0 \<le> authority_Len ?au \<and> length (AddressIterator ?au) = nat (authority_Len ?au)
        \<and> length (PublicKeyIterator ?au) = nat (authority_Len ?au)"
    by simp
  have made: "New ?au = Inr \<lparr>addrs = [Some ''n1'', Some ''n2''], pubkeys = [Some 10, Some 20]\<rparr>"
    using facts[THEN conjunct2, THEN conjunct2, THEN conjunct2, THEN conjunct2, THEN conjunct1,
                rule_format, OF regular] by simp
  have made_aligned: "aligned \<lparr>addrs = [Some ''n1'', Some ''n2''], pubkeys = [Some (10::nat), Some 20]\<rparr>"
    using facts[THEN conjunct2, THEN conjunct2, THEN conjunct2, THEN conjunct1, rule_format, OF made]
    by simp
  have differ: "length [[1], [2 :: byte]] \<noteq> length [10::nat]" by simp
  have refused: "FromProto ?f (Roster_pb [[1], [2]] [10::nat])
                   = (Inl (MismatchArrayLength 2 1) :: error + (bytes, nat) roster)"
    using facts[THEN conjunct2, THEN conjunct2, THEN conjunct2, THEN conjunct2, THEN conjunct2,
                THEN conjunct1, rule_format, OF differ] by simp
  have decoded: "FromProto ?f (Roster_pb [[1], [2]] [10::nat, 20])
                   = Inr \<lparr>addrs = [Some [1], Some [2]], pubkeys = [Some 10, Some 20]\<rparr>"
    by (simp add: FromProto_def)
  have decoded_aligned:
    "aligned \<lparr>addrs = [Some [1 :: byte], Some [2]], pubkeys = [Some (10::nat), Some 20]\<rparr>"
    using facts[THEN conjunct2, THEN conjunct2, THEN conjunct2, THEN conjunct2, THEN conjunct2,
                THEN conjunct2, rule_format, OF decoded] by simp
  show ?thesis
    by (intro conjI taken kept returns applied made made_aligned refused decoded decoded_aligned)
qed

section \<open>Properties of the commit request and of the processor\<close>

subsection \<open>The wait of the prepare handler\<close>

lemma Invoke_wait_None:
  "(Invoke_wait env arrivals h = None)
     = (\<forall>x\<in>set arrivals. link_GetIndex env (arrived x) < latest_then x)"
  by (induction arrivals arbitrary: h) (auto simp: Let_def)

lemma Invoke_wait_first:
  "n < length arrivals \<Longrightarrow>
   latest_then (arrivals ! n) \<le> link_GetIndex env (arrived (arrivals ! n)) \<Longrightarrow>
   \<forall>m<n. link_GetIndex env (arrived (arrivals ! m)) < latest_then (arrivals ! m) \<Longrightarrow>
   Invoke_wait env arrivals h =
     Some (h\<lparr>blocks := blocks h @ map arrived (take (Suc n) arrivals),
             sync := latest_then (arrivals ! n)\<rparr>)"
proof (induction arrivals arbitrary: n h)
  case Nil
  then show ?case by simp
next
  case (Cons x xs)
  show ?case
  proof (cases n)
    case 0
    then show ?thesis using Cons.prems by (simp add: Let_def)
  next
    case (Suc n')
    from Cons.prems(3) Suc
    have "link_GetIndex env (arrived ((x # xs) ! 0)) < latest_then ((x # xs) ! 0)"
      by blast
    then have no: "\<not> latest_then x \<le> link_GetIndex env (arrived x)" by simp
    have rest: "\<forall>m<n'. link_GetIndex env (arrived (xs ! m)) < latest_then (xs ! m)"
    proof (intro allI impI)
      fix m assume "m < n'"
      then have "link_GetIndex env (arrived ((x # xs) ! Suc m)) < latest_then ((x # xs) ! Suc m)"
        using Cons.prems(3) Suc by auto
      then show "link_GetIndex env (arrived (xs ! m)) < latest_then (xs ! m)" by simp
    qed
    have "Invoke_wait env xs (h\<lparr>blocks := blocks h @ [arrived x], sync := latest_then x\<rparr>) =
       Some ((h\<lparr>blocks := blocks h @ [arrived x], sync := latest_then x\<rparr>)
          \<lparr>blocks := blocks (h\<lparr>blocks := blocks h @ [arrived x], sync := latest_then x\<rparr>)
                       @ map arrived (take (Suc n') xs),
             sync := latest_then (xs ! n')\<rparr>)"
      using Cons.IH[of n'] Cons.prems Suc rest by simp
    then show ?thesis using no Suc by (simp add: Let_def)
  qed
qed

text \<open>
  Claim C1, as the code has it. A processor that receives a \<open>BlockMessage\<close> while
  \<open>sync.GetLatest()\<close> is at most \<open>blocks.Len()\<close> calls \<open>pbft.Prepare\<close> at once. When
  \<open>sync.GetLatest()\<close> exceeds \<open>blocks.Len()\<close>, the handler consumes the links that
  \<open>blocks.Watch\<close> delivers and calls \<open>pbft.Prepare\<close> only after the first link whose
  index is at least \<open>GetLatest()\<close>, on the state reached by then; there is no deadline,
  and the handler never returns exactly when every link that arrives has an index below
  \<open>GetLatest()\<close>. A replica of length 3 with \<open>GetLatest() = 5\<close> is therefore still
  waiting after the links of indices 3 and 4, and prepares once a link of index 5 or
  more has arrived.
\<close>

theorem Invoke_BlockMessage_catch_up:
  "(sync h \<le> length (blocks h) \<longrightarrow>
      Invoke env a (BlockMessage b) arrivals h = Some (Invoke_Prepare env b h))
   \<and> (length (blocks h) < sync h \<longrightarrow>
      (Invoke env a (BlockMessage b) arrivals h = None)
        = (\<forall>x\<in>set arrivals. link_GetIndex env (arrived x) < latest_then x))
   \<and> (length (blocks h) < sync h \<longrightarrow>
      (\<forall>n<length arrivals.
         latest_then (arrivals ! n) \<le> link_GetIndex env (arrived (arrivals ! n))
         \<and> (\<forall>m<n. link_GetIndex env (arrived (arrivals ! m)) < latest_then (arrivals ! m))
         \<longrightarrow> Invoke env a (BlockMessage b) arrivals h =
               Some (Invoke_Prepare env b
                 (h\<lparr>blocks := blocks h @ map arrived (take (Suc n) arrivals),
                    sync := latest_then (arrivals ! n)\<rparr>))))"
proof (intro conjI impI allI)
  assume "sync h \<le> length (blocks h)"
  then show "Invoke env a (BlockMessage b) arrivals h = Some (Invoke_Prepare env b h)"
    by (simp add: Invoke_def)
next
  assume behind: "length (blocks h) < sync h"
  have "(Invoke env a (BlockMessage b) arrivals h = None) = (Invoke_wait env arrivals h = None)"
    using behind by (simp add: Invoke_def split: option.splits)
  then show "(Invoke env a (BlockMessage b) arrivals h = None)
        = (\<forall>x\<in>set arrivals. link_GetIndex env (arrived x) < latest_then x)"
    by (simp add: Invoke_wait_None)
next
  fix n
  assume behind: "length (blocks h) < sync h" and n: "n < length arrivals"
    and trig: "latest_then (arrivals ! n) \<le> link_GetIndex env (arrived (arrivals ! n))
         \<and> (\<forall>m<n. link_GetIndex env (arrived (arrivals ! m)) < latest_then (arrivals ! m))"
  from Invoke_wait_first[of n arrivals env h] n trig
  have "Invoke_wait env arrivals h =
     Some (h\<lparr>blocks := blocks h @ map arrived (take (Suc n) arrivals),
             sync := latest_then (arrivals ! n)\<rparr>)" by blast
  then show "Invoke env a (BlockMessage b) arrivals h =
               Some (Invoke_Prepare env b
                 (h\<lparr>blocks := blocks h @ map arrived (take (Suc n) arrivals),
                    sync := latest_then (arrivals ! n)\<rparr>))"
    using behind by (simp add: Invoke_def)
qed

theorem Invoke_BlockMessage_catch_up_witness:
  "length (blocks lagging) < sync lagging
   \<and> Invoke mem ''n1'' (BlockMessage 5)
        [\<lparr>arrived = 3, latest_then = 5\<rparr>, \<lparr>arrived = 4, latest_then = 5\<rparr>,
         \<lparr>arrived = 5, latest_then = 5\<rparr>] lagging
       = Some (Inr [5], lagging\<lparr>blocks := [0, 1, 2, 3, 4, 5], pbftsm := [''Prepare'']\<rparr>)
   \<and> Invoke mem ''n1'' (BlockMessage 5) [\<lparr>arrived = 4, latest_then = 5\<rparr>] lagging = None
   \<and> sync bootstrapped \<le> length (blocks bootstrapped)
   \<and> Invoke mem ''n1'' (BlockMessage 0) [] bootstrapped
       = Some (Inr [0], bootstrapped\<lparr>pbftsm := [''Prepare'']\<rparr>)"
proof -
  let ?arr = "[\<lparr>arrived = 3, latest_then = 5\<rparr>, \<lparr>arrived = 4, latest_then = 5\<rparr>,
               \<lparr>arrived = 5 :: nat, latest_then = 5\<rparr>]"
  have behind: "length (blocks lagging) < sync lagging"
    by (simp add: lagging_def bootstrapped_def)
  have level: "sync bootstrapped \<le> length (blocks bootstrapped)"
    by (simp add: bootstrapped_def)
  have n: "Suc (Suc 0) < length ?arr" by simp
  have trig: "latest_then (?arr ! Suc (Suc 0)) \<le> link_GetIndex mem (arrived (?arr ! Suc (Suc 0)))
     \<and> (\<forall>m<Suc (Suc 0). link_GetIndex mem (arrived (?arr ! m)) < latest_then (?arr ! m))"
    by (auto simp: mem_def less_Suc_eq)
  have below: "\<forall>x\<in>set [\<lparr>arrived = 4 :: nat, latest_then = 5\<rparr>].
                 link_GetIndex mem (arrived x) < latest_then x"
    by (simp add: mem_def)
  note late = Invoke_BlockMessage_catch_up[of lagging mem "''n1''" 5 ?arr]
  note short = Invoke_BlockMessage_catch_up
                 [of lagging mem "''n1''" 5 "[\<lparr>arrived = 4, latest_then = 5\<rparr>]"]
  note on_time = Invoke_BlockMessage_catch_up[of bootstrapped mem "''n1''" 0 "[]"]
  have caught_up: "Invoke mem ''n1'' (BlockMessage 5) ?arr lagging
       = Some (Inr [5], lagging\<lparr>blocks := [0, 1, 2, 3, 4, 5], pbftsm := [''Prepare'']\<rparr>)"
    using late[THEN conjunct2, THEN conjunct2, rule_format, OF behind n trig]
    by (simp add: Invoke_Prepare_def mem_def lagging_def bootstrapped_def)
  have waiting: "Invoke mem ''n1'' (BlockMessage 5) [\<lparr>arrived = 4, latest_then = 5\<rparr>] lagging = None"
    using short[THEN conjunct2, THEN conjunct1, rule_format, OF behind] below by blast
  have direct: "Invoke mem ''n1'' (BlockMessage 0) [] bootstrapped
       = Some (Inr [0], bootstrapped\<lparr>pbftsm := [''Prepare'']\<rparr>)"
    using on_time[THEN conjunct1, rule_format, OF level]
    by (simp add: Invoke_Prepare_def mem_def bootstrapped_def)
  show ?thesis by (intro conjI behind caught_up waiting level direct)
qed

theorem Invoke_BlockMessage_catch_up_counterexample:
  "length (blocks lagging) = 3 \<and> sync lagging = 5
   \<and> Invoke mem ''n1'' (BlockMessage 5)
        [\<lparr>arrived = 3, latest_then = 5\<rparr>, \<lparr>arrived = 4, latest_then = 5\<rparr>] lagging = None"
  by (simp add: Invoke_def lagging_def bootstrapped_def mem_def Let_def)

subsection \<open>The genesis\<close>

lemma storeGenesis_success:
  assumes "genesis h = None" and "started h = Open"
      and "roster_Serialize env ro = Inr val"
      and "tree_Stage env (tree h) (snap_Set env keyRoster val) = Inr stageTree"
      and "match = None \<or> match = Some (to_Digest (tree_GetRoot env stageTree))"
      and "NewGenesis env ro (to_Digest (tree_GetRoot env stageTree)) = Inr gen"
      and "tree_Commit env stageTree = Inr committed"
  shows "storeGenesis env ro match h =
           (Inr (), h\<lparr>tree := committed, genesis := Some gen, watcher := watcher h @ [0],
                      started := Closed\<rparr>)"
  using assms by (auto simp: storeGenesis_def Let_def genesis_Set_def close_def)

lemma storeGenesis_Inr:
  assumes "storeGenesis env ro match h = (Inr (), h')"
  shows "\<exists>val stageTree.
           roster_Serialize env ro = Inr val
           \<and> tree_Stage env (tree h) (snap_Set env keyRoster val) = Inr stageTree
           \<and> tree_Commit env stageTree = Inr (tree h')"
  using assms
  by (auto simp: storeGenesis_def Let_def close_def split: sum.splits if_splits chan.splits)

lemma Process_genesis_exists:
  "genesis h \<noteq> None \<Longrightarrow> Message req = GenesisMessage g \<Longrightarrow> Process env req h = (Inr (), h)"
  by (simp add: Process_def genesis_Exists_def)

lemma deliver_genesis_exists:
  "genesis h \<noteq> None \<Longrightarrow> Message req = GenesisMessage g \<Longrightarrow>
   deliver env req n h = (replicate n (Inr ()), h)"
  by (induction n) (simp_all add: Process_genesis_exists replicate_append_same)

text \<open>
  Claim C2. A processor with an empty genesis slot and an open \<open>started\<close> barrier
  receives \<open>N \<ge> 1\<close> times the same \<open>GenesisMessage\<close>, one that the first delivery
  accepts: its roster serializes, the staged tree has the root the message announces,
  and the genesis is created and the tree committed without error. Then every delivery
  returns no error, and the state after the \<open>N\<close> deliveries is the state after one: the
  committed tree is in the tree cache, the genesis slot holds the genesis, one event of
  index 0 has been notified, and \<open>started\<close> is closed, by the first delivery alone.
\<close>

theorem genesis_delivery_idempotent:
  assumes msg: "Message req = GenesisMessage g"
      and fresh: "genesis h = None" "started h = Open"
      and ser: "roster_Serialize env (genesis_GetRoster env g) = Inr val"
      and stage: "tree_Stage env (tree h) (snap_Set env keyRoster val) = Inr stageTree"
      and root: "to_Digest (tree_GetRoot env stageTree) = genesis_GetRoot env g"
      and gen: "NewGenesis env (genesis_GetRoster env g) (genesis_GetRoot env g) = Inr gen"
      and commit: "tree_Commit env stageTree = Inr committed"
      and N: "1 \<le> N"
  shows "deliver env req N h =
           (replicate N (Inr ()),
            h\<lparr>tree := committed, genesis := Some gen, watcher := watcher h @ [0],
              started := Closed\<rparr>)
         \<and> snd (deliver env req N h) = snd (deliver env req 1 h)"
proof -
  let ?h1 = "h\<lparr>tree := committed, genesis := Some gen, watcher := watcher h @ [0],
              started := Closed\<rparr>"
  have "storeGenesis env (genesis_GetRoster env g) (Some (genesis_GetRoot env g)) h = (Inr (), ?h1)"
    using storeGenesis_success[of h env "genesis_GetRoster env g" val stageTree
        "Some (genesis_GetRoot env g)" gen committed] fresh ser stage root gen commit
    by simp
  then have first: "Process env req h = (Inr (), ?h1)"
    using msg fresh by (simp add: Process_def genesis_Exists_def)
  have later: "\<And>n. deliver env req n ?h1 = (replicate n (Inr ()), ?h1)"
    by (rule deliver_genesis_exists[OF _ msg]) simp
  have all: "\<And>n. deliver env req (Suc n) h = (replicate (Suc n) (Inr ()), ?h1)"
    using first later by simp
  obtain n where "N = Suc n" using N by (cases N) auto
  then show ?thesis using all[of n] all[of 0] by simp
qed

theorem genesis_delivery_idempotent_witness:
  "deliver mem \<lparr>Address = ''n0'', Message = GenesisMessage ([1], to_Digest [1])\<rparr> 3 fresh
     = (replicate 3 (Inr ()), bootstrapped)
   \<and> deliver mem \<lparr>Address = ''n0'', Message = GenesisMessage ([1], to_Digest [1])\<rparr> 1 fresh
     = (replicate 1 (Inr ()), bootstrapped)"
proof -
  let ?req = "\<lparr>Address = ''n0'', Message = GenesisMessage ([1 :: byte], to_Digest [1])\<rparr>
                :: (string, nat, bytes, bytes \<times> bytes) Request"
  have msg: "Message ?req = GenesisMessage ([1], to_Digest [1])" by simp
  have empty: "genesis fresh = None" and opened: "started fresh = Open"
    by (simp_all add: fresh_def)
  have ser: "roster_Serialize mem (genesis_GetRoster mem ([1], to_Digest [1])) = Inr [1]"
    by (simp add: mem_def)
  have stage: "tree_Stage mem (tree fresh) (snap_Set mem keyRoster [1]) = Inr [(keyRoster, [1])]"
    by (simp add: mem_def fresh_def)
  have root: "to_Digest (tree_GetRoot mem [(keyRoster, [1])])
                = genesis_GetRoot mem ([1], to_Digest [1])"
    by (simp add: mem_def)
  have gen: "NewGenesis mem (genesis_GetRoster mem ([1], to_Digest [1]))
               (genesis_GetRoot mem ([1], to_Digest [1])) = Inr ([1], to_Digest [1])"
    by (simp add: mem_def)
  have commit: "tree_Commit mem [(keyRoster, [1])] = Inr [(keyRoster, [1])]"
    by (simp add: mem_def)
  have after: "fresh\<lparr>tree := [(keyRoster, [1])], genesis := Some ([1], to_Digest [1]),
                     watcher := watcher fresh @ [0], started := Closed\<rparr> = bootstrapped"
    by (simp add: fresh_def bootstrapped_def)
  have three: "(1::nat) \<le> 3" and one: "(1::nat) \<le> 1" by simp_all
  from genesis_delivery_idempotent[OF msg empty opened ser stage root gen commit three]
  have d3: "deliver mem ?req 3 fresh = (replicate 3 (Inr ()), bootstrapped)"
    by (simp only: after)
  from genesis_delivery_idempotent[OF msg empty opened ser stage root gen commit one]
  have d1: "deliver mem ?req 1 fresh = (replicate 1 (Inr ()), bootstrapped)"
    by (simp only: after)
  show ?thesis by (intro conjI d3 d1)
qed




text \<open>
  Claim C6. The roster key is the 32 zero bytes. After a successful \<open>storeGenesis\<close> of
  a roster, the committed tree in the tree cache holds the serialized roster at that
  key, and \<open>getCurrentRoster\<close>, which reads that key and decodes the value, returns the
  roster that was stored. The tree and the codec are collaborators: the tree is assumed
  to return, once committed, the value staged at a key, and the codec to decode what it
  serialized for this roster.
\<close>

theorem roster_round_trip_at_keyRoster:
  assumes stored: "storeGenesis env ro match h = (Inr (), h')"
      and tree_contract:
        "\<forall>t val staged committed.
           tree_Stage env t (snap_Set env keyRoster val) = Inr staged
           \<and> tree_Commit env staged = Inr committed
           \<longrightarrow> tree_Get env committed keyRoster = Inr val"
      and codec: "\<forall>val. roster_Serialize env ro = Inr val \<longrightarrow> rosterFac_AuthorityOf env val = Inr ro"
  shows "keyRoster = replicate 32 0
         \<and> (\<exists>val. roster_Serialize env ro = Inr val
                  \<and> tree_Get env (tree h') keyRoster = Inr val)
         \<and> getCurrentRoster env h' = Inr ro"
proof -
  from storeGenesis_Inr[OF stored] obtain val stageTree where
    ser: "roster_Serialize env ro = Inr val" and
    stage: "tree_Stage env (tree h) (snap_Set env keyRoster val) = Inr stageTree" and
    commit: "tree_Commit env stageTree = Inr (tree h')" by blast
  from tree_contract stage commit have get: "tree_Get env (tree h') keyRoster = Inr val" by blast
  from codec ser have dec: "rosterFac_AuthorityOf env val = Inr ro" by blast
  have "getCurrentRoster env h' = Inr ro"
    using get dec by (simp add: getCurrentRoster_def readRoster_def)
  then show ?thesis using ser get by (auto simp: keyRoster_def)
qed

theorem roster_round_trip_at_keyRoster_witness:
  "storeGenesis mem [1] (Some (to_Digest [1])) fresh = (Inr (), bootstrapped)
   \<and> tree_Get mem (tree bootstrapped) (replicate 32 0) = Inr [1]
   \<and> getCurrentRoster mem bootstrapped = Inr [1]"
proof -
  have stored: "storeGenesis mem [1] (Some (to_Digest [1])) fresh = (Inr (), bootstrapped)"
    by (simp add: storeGenesis_def mem_def fresh_def bootstrapped_def Let_def genesis_Set_def
          close_def)
  have tree_contract:
        "\<forall>t val staged committed.
           tree_Stage mem t (snap_Set mem keyRoster val) = Inr staged
           \<and> tree_Commit mem staged = Inr committed
           \<longrightarrow> tree_Get mem committed keyRoster = Inr val"
    by (auto simp: mem_def)
  have codec: "\<forall>val. roster_Serialize mem [1] = Inr val \<longrightarrow> rosterFac_AuthorityOf mem val = Inr [1]"
    by (simp add: mem_def)
  from roster_round_trip_at_keyRoster[OF stored tree_contract codec] stored
  show ?thesis by (auto simp: keyRoster_def mem_def)
qed

subsection \<open>The dispatch\<close>




text \<open>
  Claim C5. The hash of a commit request built by \<open>newCommitRequest\<close> is the binary
  encoding of the prepare signature it carries, and the request is built whenever the
  signature marshals. When \<open>pbft.Commit\<close> accepts a \<open>CommitMessage\<close> and the signature
  of the message marshals, \<open>Invoke\<close> replies with exactly that encoding; and whenever
  \<open>Invoke\<close> replies to a \<open>CommitMessage\<close> at all, \<open>pbft.Commit\<close> has accepted it and
  the reply is the encoding of the message's signature.
\<close>

theorem commit_hash_is_marshalled_prepare_signature:
  "(\<forall>c. newCommitRequest MarshalBinary to_arg sg = Inr c \<longrightarrow>
        MarshalBinary sg = Inr (Commit_GetHash c) \<and> prepare c = sg \<and> to c = to_arg)
   \<and> (\<forall>buffer. MarshalBinary sg = Inr buffer \<longrightarrow>
        (\<exists>c. newCommitRequest MarshalBinary to_arg sg = Inr c \<and> Commit_GetHash c = buffer))
   \<and> (\<forall>h1 buffer. pbftsm_Commit env id_arg sg h = (None, h1)
          \<and> signature_MarshalBinary env sg = Inr buffer
        \<longrightarrow> Invoke env a (CommitMessage id_arg sg) arrivals h = Some (Inr buffer, h1))
   \<and> (\<forall>reply h1. Invoke env a (CommitMessage id_arg sg) arrivals h = Some (Inr reply, h1)
        \<longrightarrow> signature_MarshalBinary env sg = Inr reply \<and> pbftsm_Commit env id_arg sg h = (None, h1))"
proof -
  have request: "\<forall>c. newCommitRequest MarshalBinary to_arg sg = Inr c \<longrightarrow>
        MarshalBinary sg = Inr (Commit_GetHash c) \<and> prepare c = sg \<and> to c = to_arg"
    by (auto simp: newCommitRequest_def Commit_GetHash_def split: sum.splits)
  have built: "\<forall>buffer. MarshalBinary sg = Inr buffer \<longrightarrow>
        (\<exists>c. newCommitRequest MarshalBinary to_arg sg = Inr c \<and> Commit_GetHash c = buffer)"
    by (simp add: newCommitRequest_def Commit_GetHash_def)
  have reply: "\<forall>h1 buffer. pbftsm_Commit env id_arg sg h = (None, h1)
          \<and> signature_MarshalBinary env sg = Inr buffer
        \<longrightarrow> Invoke env a (CommitMessage id_arg sg) arrivals h = Some (Inr buffer, h1)"
    by (simp add: Invoke_def)
  have only: "\<forall>reply h1. Invoke env a (CommitMessage id_arg sg) arrivals h = Some (Inr reply, h1)
        \<longrightarrow> signature_MarshalBinary env sg = Inr reply \<and> pbftsm_Commit env id_arg sg h = (None, h1)"
  proof (intro allI impI)
    fix reply h1
    assume inv: "Invoke env a (CommitMessage id_arg sg) arrivals h = Some (Inr reply, h1)"
    obtain res h2 where c: "pbftsm_Commit env id_arg sg h = (res, h2)"
      by (cases "pbftsm_Commit env id_arg sg h") auto
    show "signature_MarshalBinary env sg = Inr reply \<and> pbftsm_Commit env id_arg sg h = (None, h1)"
    proof (cases res)
      case (Some err)
      with inv c show ?thesis by (simp add: Invoke_def)
    next
      case None
      with inv c show ?thesis
        by (cases "signature_MarshalBinary env sg") (simp_all add: Invoke_def)
    qed
  qed
  show ?thesis by (intro conjI request built reply only)
qed

theorem commit_hash_is_marshalled_prepare_signature_witness:
  "newCommitRequest Inr [7] [1, 2, 3] = Inr \<lparr>to = [7], prepare = [1, 2, 3], hash = [1, 2, 3]\<rparr>
   \<and> Commit_GetHash \<lparr>to = [7], prepare = [1, 2, 3 :: byte], hash = [1, 2, 3]\<rparr> = [1, 2, 3]
   \<and> (\<exists>c. newCommitRequest Inr [7] [1, 2, 3 :: byte] = Inr c \<and> Commit_GetHash c = [1, 2, 3])
   \<and> Invoke mem ''n1'' (CommitMessage [7] [1, 2, 3]) [] bootstrapped
       = Some (Inr [1, 2, 3], bootstrapped\<lparr>pbftsm := [''Commit'']\<rparr>)
   \<and> signature_MarshalBinary mem [1, 2, 3] = Inr [1, 2, 3]
   \<and> pbftsm_Commit mem [7] [1, 2, 3] bootstrapped
       = (None, bootstrapped\<lparr>pbftsm := [''Commit'']\<rparr>)"
proof -
  have c: "pbftsm_Commit mem [7] [1, 2, 3] bootstrapped
             = (None, bootstrapped\<lparr>pbftsm := [''Commit'']\<rparr>)"
    by (simp add: mem_def bootstrapped_def)
  have m: "signature_MarshalBinary mem [1, 2, 3] = Inr [1, 2, 3]"
    by (simp add: mem_def)
  have r: "newCommitRequest Inr [7] [1, 2, 3 :: byte]
             = Inr \<lparr>to = [7], prepare = [1, 2, 3], hash = [1, 2, 3]\<rparr>"
    by (simp add: newCommitRequest_def)
  have mb: "(Inr :: bytes \<Rightarrow> error + bytes) [1, 2, 3] = Inr [1, 2, 3]" by simp
  note facts = commit_hash_is_marshalled_prepare_signature
          [of Inr "[7]" "[1, 2, 3]" mem "[7]" bootstrapped "''n1''" "[]"]
  have h: "Commit_GetHash \<lparr>to = [7], prepare = [1, 2, 3 :: byte], hash = [1, 2, 3]\<rparr> = [1, 2, 3]"
    using facts[THEN conjunct1, rule_format, OF r] by simp
  have b: "\<exists>c. newCommitRequest Inr [7] [1, 2, 3 :: byte] = Inr c \<and> Commit_GetHash c = [1, 2, 3]"
    using facts[THEN conjunct2, THEN conjunct1, rule_format, OF mb] .
  have i: "Invoke mem ''n1'' (CommitMessage [7] [1, 2, 3]) [] bootstrapped
       = Some (Inr [1, 2, 3], bootstrapped\<lparr>pbftsm := [''Commit'']\<rparr>)"
    using facts[THEN conjunct2, THEN conjunct2, THEN conjunct1, rule_format, OF conjI, OF c m] .
  have o: "signature_MarshalBinary mem [1, 2, 3] = Inr [1, 2, 3]
           \<and> pbftsm_Commit mem [7] [1, 2, 3] bootstrapped
               = (None, bootstrapped\<lparr>pbftsm := [''Commit'']\<rparr>)"
    using facts[THEN conjunct2, THEN conjunct2, THEN conjunct2, rule_format, OF i] .
  show ?thesis using r h b i o by blast
qed

text \<open>
  Claim C8. For every message that is none of \<open>BlockMessage\<close>, \<open>CommitMessage\<close>,
  \<open>GenesisMessage\<close>, \<open>DoneMessage\<close> and \<open>ViewMessage\<close>, both \<open>Invoke\<close> and
  \<open>Process\<close> return the unsupported-message error, which names the type of the
  message, and leave the state as it was.
\<close>

theorem unsupported_message_rejected:
  "Invoke env a (OtherMessage ty) arrivals h = Some (Inl (Unsupported ty), h)
   \<and> Process env \<lparr>Address = a, Message = OtherMessage ty\<rparr> h = (Inl (Unsupported ty), h)"
  by (simp add: Invoke_def Process_def)

theorem unsupported_message_rejected_witness:
  "Invoke mem ''n1'' (OtherMessage ''types.BlockRequest'') [] bootstrapped
     = Some (Inl (Unsupported ''types.BlockRequest''), bootstrapped)
   \<and> Process mem \<lparr>Address = ''n1'', Message = OtherMessage ''types.BlockRequest''\<rparr> bootstrapped
     = (Inl (Unsupported ''types.BlockRequest''), bootstrapped)"
  by (rule unsupported_message_rejected)

end
